theory Spec2Isabelle
  imports Complex_Main
begin

section \<open>Data model\<close>

text \<open>
  The agent of \<^verbatim>\<open>src/agent\<close> keeps, for each of the three axes, a Dirichlet-style
  vector of pseudo-counts over the three signs. Python's dictionaries keyed by
  \<^verbatim>\<open>'X','Y','Z'\<close> and \<^verbatim>\<open>'+','0','-'\<close> are functions on the two enumerations below
  (every key is always present in the source). The field \<^verbatim>\<open>self.method\<close> is
  \<open>conf_method\<close>. Python floats are modelled as exact reals, Python ints as \<open>int\<close>.
  Every exception the code can raise is a value of \<open>error\<close>, returned on the left of
  a sum.
\<close>

datatype axis = X | Y | Z

datatype sign = Positive | Zero | Negative

datatype error = ValueError | KeyError | TypeError | ZeroDivisionError | UnboundLocalError

type_synonym tally = "sign \<Rightarrow> int"

record BeliefState =
  alpha :: "axis \<Rightarrow> sign \<Rightarrow> real"
  lam :: real
  gamma :: real
  conf_method :: string

section \<open>\<^verbatim>\<open>belief_state.py\<close>\<close>

text \<open>\<^verbatim>\<open>BeliefState.__init__(lam, gamma, method)\<close>; the defaults are 1.0, 1.0, 'wilson'.\<close>

definition BeliefState_init :: "real \<Rightarrow> real \<Rightarrow> string \<Rightarrow> BeliefState" where
  "BeliefState_init l g m = \<lparr>alpha = (\<lambda>A s. l), lam = l, gamma = g, conf_method = m\<rparr>"

text \<open>
  Python's \<^verbatim>\<open>x ** y\<close> on floats. A zero base with a negative exponent raises
  ZeroDivisionError, and \<^verbatim>\<open>0.0 ** 0.0\<close> is 1.0. A negative base with a non-integral
  exponent gives a complex number in Python, on which the comparison \<^verbatim>\<open>neff > 0\<close> of
  \<^verbatim>\<open>update\<close> raises TypeError; that branch is reported as TypeError here (neither caller
  reaches it in exact arithmetic).
\<close>

definition py_pow :: "real \<Rightarrow> real \<Rightarrow> error + real" where
  "py_pow x y =
     (if y = 0 then Inr 1
      else if x = 0 then (if y < 0 then Inl ZeroDivisionError else Inr 0)
      else if 0 < x then Inr (x powr y)
      else if y \<in> \<int> then Inr (x powi \<lfloor>y\<rfloor>)
      else Inl TypeError)"

text \<open>\<^verbatim>\<open>n = kplus + kzero + kminus\<close>, also \<^verbatim>\<open>sum(counts.values())\<close>.\<close>

definition total :: "tally \<Rightarrow> int" where
  "total counts = counts Positive + counts Zero + counts Negative"

text \<open>
  \<^verbatim>\<open>_wilson_neff\<close>: returns \<open>(neff, confidence)\<close>. \<^verbatim>\<open>math.sqrt\<close> raises ValueError on a
  negative argument. The divisors \<open>n\<close>, \<open>2*n\<close>, \<open>4*n*n\<close> are non-zero after the guard, and
  \<open>1 + z*z/n\<close> is non-zero for every integer \<open>n\<close>.
\<close>

definition wilson_lb :: "real \<Rightarrow> real \<Rightarrow> real" where
  "wilson_lb phat n =
     (let z = 196 / 100 in
      (phat + z * z / (2 * n) - z * sqrt ((phat * (1 - phat)) / n + (z * z) / (4 * n * n)))
        / (1 + z * z / n))"

definition wilson_neff :: "BeliefState \<Rightarrow> tally \<Rightarrow> error + (real \<times> real)" where
  "wilson_neff b counts =
     (let kplus = counts Positive; kzero = counts Zero; kminus = counts Negative;
          n = kplus + kzero + kminus
      in if n = 0 then Inr (0, 0)
         else
           let kmax = max kplus (max kzero kminus);
               phat = real_of_int kmax / real_of_int n;
               z = 196 / 100 :: real
           in if (phat * (1 - phat)) / real_of_int n
                   + (z * z) / (4 * real_of_int n * real_of_int n) < 0
              then Inl ValueError
              else
                let lb = wilson_lb phat (real_of_int n) in
                (case py_pow (max 0 ((max lb (1 / 3) - 1 / 3) / (2 / 3))) (gamma b) of
                   Inl e \<Rightarrow> Inl e
                 | Inr confidence \<Rightarrow> Inr (real_of_int n * confidence, confidence)))"

text \<open>
  The smoothed proportion \<^verbatim>\<open>(counts[s] + self.lam)/(n + 3*self.lam)\<close>, used by
  \<^verbatim>\<open>_entropy_neff\<close> and by \<^verbatim>\<open>update\<close>; the callers check the divisor first.
\<close>

definition p_hat :: "BeliefState \<Rightarrow> tally \<Rightarrow> sign \<Rightarrow> real" where
  "p_hat b counts s =
     (real_of_int (counts s) + lam b) / (real_of_int (total counts) + 3 * lam b)"

text \<open>
  \<^verbatim>\<open>_entropy_neff\<close>: the list \<open>p\<close> is built first (ZeroDivisionError on a zero
  divisor), then the entropy (\<^verbatim>\<open>math.log\<close> raises ValueError on an argument \<open>\<le> 0\<close>).
\<close>

definition entropy_neff :: "BeliefState \<Rightarrow> tally \<Rightarrow> error + (real \<times> real)" where
  "entropy_neff b counts =
     (let n = total counts
      in if n = 0 then Inr (0, 0)
         else if real_of_int n + 3 * lam b = 0 then Inl ZeroDivisionError
         else
           let p = p_hat b counts
           in if p Positive \<le> 0 \<or> p Zero \<le> 0 \<or> p Negative \<le> 0 then Inl ValueError
              else
                let H = - (p Positive * ln (p Positive) + p Zero * ln (p Zero)
                            + p Negative * ln (p Negative));
                    Hmax = ln 3
                in (case py_pow (1 - H / Hmax) (gamma b) of
                      Inl e \<Rightarrow> Inl e
                    | Inr confidence \<Rightarrow> Inr (real_of_int n * confidence, confidence)))"

text \<open>
  One round of the loop \<^verbatim>\<open>for A in ['X','Y','Z']\<close> of \<^verbatim>\<open>update\<close>: the confidence of
  the axis and the belief with this axis's pseudo-counts updated. An exception leaves the
  belief as it was before this axis.
\<close>

definition update_axis :: "BeliefState \<Rightarrow> axis \<Rightarrow> tally \<Rightarrow> error + (BeliefState \<times> real)" where
  "update_axis b A counts =
     (case (if conf_method b = ''wilson'' then wilson_neff b counts else entropy_neff b counts) of
        Inl e \<Rightarrow> Inl e
      | Inr (neff, confidence) \<Rightarrow>
          let n = total counts
          in if 0 < n \<and> 0 < neff
             then if real_of_int n + 3 * lam b = 0 then Inl ZeroDivisionError
                  else Inr (b\<lparr>alpha := (alpha b)(A := (\<lambda>s. alpha b A s + neff * p_hat b counts s))\<rparr>,
                            confidence)
             else Inr (b, confidence))"

text \<open>
  \<^verbatim>\<open>update\<close>: the three rounds in the order X, Y, Z. The belief is mutated in place, so
  the result carries the belief also when a later axis raises.
\<close>

definition update :: "BeliefState \<Rightarrow> (axis \<Rightarrow> tally) \<Rightarrow> BeliefState \<times> (error + (axis \<Rightarrow> real))" where
  "update b axis_counts =
     (case update_axis b X (axis_counts X) of
        Inl e \<Rightarrow> (b, Inl e)
      | Inr (b1, cx) \<Rightarrow>
     (case update_axis b1 Y (axis_counts Y) of
        Inl e \<Rightarrow> (b1, Inl e)
      | Inr (b2, cy) \<Rightarrow>
     (case update_axis b2 Z (axis_counts Z) of
        Inl e \<Rightarrow> (b2, Inl e)
      | Inr (b3, cz) \<Rightarrow> (b3, Inr (\<lambda>A. case A of X \<Rightarrow> cx | Y \<Rightarrow> cy | Z \<Rightarrow> cz)))))"

text \<open>\<^verbatim>\<open>sum(self.alpha[A].values())\<close>\<close>

definition alpha_sum :: "BeliefState \<Rightarrow> axis \<Rightarrow> real" where
  "alpha_sum b A = alpha b A Positive + alpha b A Zero + alpha b A Negative"

text \<open>\<^verbatim>\<open>get_posterior\<close>: a float division by zero raises ZeroDivisionError.\<close>

definition posterior_axis :: "BeliefState \<Rightarrow> axis \<Rightarrow> error + (sign \<Rightarrow> real)" where
  "posterior_axis b A =
     (let ssum = alpha_sum b A
      in if ssum = 0 then Inl ZeroDivisionError else Inr (\<lambda>s. alpha b A s / ssum))"

definition get_posterior :: "BeliefState \<Rightarrow> error + (axis \<Rightarrow> sign \<Rightarrow> real)" where
  "get_posterior b =
     (case posterior_axis b X of Inl e \<Rightarrow> Inl e | Inr px \<Rightarrow>
     (case posterior_axis b Y of Inl e \<Rightarrow> Inl e | Inr py \<Rightarrow>
     (case posterior_axis b Z of Inl e \<Rightarrow> Inl e | Inr pz \<Rightarrow>
        Inr (\<lambda>A. case A of X \<Rightarrow> px | Y \<Rightarrow> py | Z \<Rightarrow> pz))))"

text \<open>
  \<^verbatim>\<open>max(probs.items(), key=lambda x: x[1])\<close> over the dictionary built in the order
  \<^verbatim>\<open>'+', '0', '-'\<close>: Python's \<^verbatim>\<open>max\<close> keeps the item it holds unless a later one is
  strictly greater.
\<close>

definition top_item :: "(sign \<Rightarrow> real) \<Rightarrow> sign \<times> real" where
  "top_item probs =
     (let best = (Positive, probs Positive);
          best = (if snd best < probs Zero then (Zero, probs Zero) else best);
          best = (if snd best < probs Negative then (Negative, probs Negative) else best)
      in best)"

definition get_decision :: "BeliefState \<Rightarrow> error + ((axis \<Rightarrow> sign) \<times> (axis \<Rightarrow> real))" where
  "get_decision b =
     (case get_posterior b of
        Inl e \<Rightarrow> Inl e
      | Inr post \<Rightarrow> Inr (\<lambda>A. fst (top_item (post A)), \<lambda>A. snd (top_item (post A))))"

text \<open>\<^verbatim>\<open>should_stop\<close>: the flag starts True and is cleared by every failing axis.\<close>

definition should_stop :: "BeliefState \<Rightarrow> real \<Rightarrow> real \<Rightarrow> error + (bool \<times> (axis \<Rightarrow> sign))" where
  "should_stop b tau kappa_min =
     (case get_decision b of
        Inl e \<Rightarrow> Inl e
      | Inr (decision, top_ps) \<Rightarrow>
          Inr (foldl (\<lambda>ok A. if \<not> (tau \<le> top_ps A \<and> kappa_min \<le> alpha_sum b A) then False else ok)
                 True [X, Y, Z],
               decision))"

section \<open>\<^verbatim>\<open>verifier.py\<close>\<close>

text \<open>
  Strings are lists of \<open>char\<close>, read as code points below 256. Among them Python's
  \<^verbatim>\<open>str.strip\<close> and the regular expression class \<^verbatim>\<open>\s\<close> take the same characters for
  white space: 9 to 13, 28 to 32, 133 and 160.
\<close>

definition is_space :: "char \<Rightarrow> bool" where
  "is_space c \<longleftrightarrow> c \<in> set [CHR 0x09, CHR 0x0A, CHR 0x0B, CHR 0x0C, CHR 0x0D, CHR 0x1C, CHR 0x1D,
                           CHR 0x1E, CHR 0x1F, CHR 0x20, CHR 0x85, CHR 0xA0]"

definition strip :: "string \<Rightarrow> string" where
  "strip s = rev (dropWhile is_space (rev (dropWhile is_space s)))"

fun starts_with :: "string \<Rightarrow> string \<Rightarrow> bool" where
  "starts_with [] s = True"
| "starts_with (p # ps) [] = False"
| "starts_with (p # ps) (c # cs) = (p = c \<and> starts_with ps cs)"

definition ends_with :: "string \<Rightarrow> string \<Rightarrow> bool" where
  "ends_with p s = starts_with (rev p) (rev s)"

text \<open>
  The lazy group \<^verbatim>\<open>(.*?)\<close> followed by a literal, under \<^verbatim>\<open>re.DOTALL\<close>: the shortest
  prefix after which the literal stands.
\<close>

fun lazy_until :: "string \<Rightarrow> string \<Rightarrow> string option" where
  "lazy_until pat [] = (if pat = [] then Some [] else None)"
| "lazy_until pat (c # cs) =
     (if starts_with pat (c # cs) then Some [] else map_option ((#) c) (lazy_until pat cs))"

text \<open>
  \<^verbatim>\<open>re.search(r'<answer>(.*?)</answer>', s, re.DOTALL)\<close>: the start positions are tried
  from the left; the result is group 1 of the first match.
\<close>

fun search_answer_dotall :: "string \<Rightarrow> string option" where
  "search_answer_dotall [] = None"
| "search_answer_dotall (c # cs) =
     (if starts_with ''<answer>'' (c # cs)
      then (case lazy_until ''</answer>'' (drop 8 (c # cs)) of
              Some g \<Rightarrow> Some g
            | None \<Rightarrow> search_answer_dotall cs)
      else search_answer_dotall cs)"

text \<open>
  \<^verbatim>\<open>(.*?)\s*</answer>\<close> without DOTALL: the dot does not take a line feed. The greedy
  \<^verbatim>\<open>\s*\<close> before the closing tag takes all white space there (the tag starts with
  \<^verbatim>\<open><\<close>, which is no white space, so giving some back never helps).
\<close>

fun lazy_content :: "string \<Rightarrow> string option" where
  "lazy_content [] = None"
| "lazy_content (c # cs) =
     (if starts_with ''</answer>'' (dropWhile is_space (c # cs)) then Some []
      else if c = CHR 0x0A then None
      else map_option ((#) c) (lazy_content cs))"

text \<open>
  \<^verbatim>\<open>re.search(r"<answer>\s*(.*?)\s*</answer>", response)\<close>. The greedy \<^verbatim>\<open>\s*\<close> after
  the opening tag takes the whole run of white space: if the rest matches after a shorter
  run, it matches after the whole run too, and the engine tries the whole run first.
\<close>

fun search_answer :: "string \<Rightarrow> string option" where
  "search_answer [] = None"
| "search_answer (c # cs) =
     (if starts_with ''<answer>'' (c # cs)
      then (case lazy_content (dropWhile is_space (drop 8 (c # cs))) of
              Some g \<Rightarrow> Some g
            | None \<Rightarrow> search_answer cs)
      else search_answer cs)"

text \<open>\<^verbatim>\<open>content.split(",")\<close>\<close>

fun split_comma :: "string \<Rightarrow> string list" where
  "split_comma [] = [[]]"
| "split_comma (c # cs) =
     (if c = CHR '','' then [] # split_comma cs
      else (case split_comma cs of p # ps \<Rightarrow> (c # p) # ps | [] \<Rightarrow> [[c]]))"

definition sign_of_char :: "char \<Rightarrow> sign option" where
  "sign_of_char c =
     (if c = CHR ''+'' then Some Positive
      else if c = CHR ''-'' then Some Negative
      else if c = CHR ''0'' then Some Zero
      else None)"

definition axis_of_char :: "char \<Rightarrow> axis option" where
  "axis_of_char c =
     (if c = CHR ''X'' then Some X
      else if c = CHR ''Y'' then Some Y
      else if c = CHR ''Z'' then Some Z
      else None)"

text \<open>
  \<^verbatim>\<open>re.match(r"^([+\-0])([XYZ])$", part)\<close>; \<^verbatim>\<open>$\<close> also matches before a line feed that
  ends the string.
\<close>

definition match_token :: "string \<Rightarrow> (sign \<times> axis) option" where
  "match_token part =
     (case part of
        [s, a] \<Rightarrow>
          (case (sign_of_char s, axis_of_char a) of
             (Some sg, Some ax) \<Rightarrow> Some (sg, ax)
           | _ \<Rightarrow> None)
      | [s, a, nl] \<Rightarrow>
          (case (sign_of_char s, axis_of_char a) of
             (Some sg, Some ax) \<Rightarrow> if nl = CHR 0x0A then Some (sg, ax) else None
           | _ \<Rightarrow> None)
      | _ \<Rightarrow> None)"

definition parse_answer :: "string \<Rightarrow> (axis \<rightharpoonup> sign)" where
  "parse_answer response =
     (let content = (case search_answer response of Some g \<Rightarrow> g | None \<Rightarrow> strip response);
          content = strip content;
          content = (if starts_with ''('' content \<and> ends_with '')'' content
                     then butlast (tl content) else content);
          parts = map strip (filter (\<lambda>p. strip p \<noteq> []) (split_comma content))
      in foldl (\<lambda>result part.
                  case match_token part of
                    Some (sg, ax) \<Rightarrow> result(ax \<mapsto> sg)
                  | None \<Rightarrow> result)
           Map.empty parts)"

text \<open>
  The values \<^verbatim>\<open>json.loads\<close> returns. The decoder itself belongs to Python's library;
  \<^verbatim>\<open>parse_answer_json\<close> takes it as the parameter \<open>loads\<close>, with \<open>None\<close> for
  \<^verbatim>\<open>json.JSONDecodeError\<close>.
\<close>

datatype json =
    JNull
  | JBool bool
  | JNum real
  | JStr string
  | JArr "json list"
  | JObj "(string \<times> json) list"

definition parse_answer_json :: "(string \<Rightarrow> json option) \<Rightarrow> string \<Rightarrow> error + json" where
  "parse_answer_json loads llm_response =
     (case search_answer_dotall llm_response of
        None \<Rightarrow> Inl ValueError
      | Some g \<Rightarrow>
          (case loads (strip g) of
             None \<Rightarrow> Inl ValueError
           | Some v \<Rightarrow> Inr v))"

section \<open>\<^verbatim>\<open>utils.py\<close>\<close>

text \<open>
  \<^verbatim>\<open>generate_jitter_offsets(m, r_az, r_el)\<close>. \<^verbatim>\<open>random.uniform(a, b)\<close> is
  \<^verbatim>\<open>a + (b - a) * random()\<close>; the draws of \<^verbatim>\<open>random()\<close> are the stream \<open>rnd\<close>.
  \<^verbatim>\<open>range(m)\<close> is empty for \<open>m \<le> 0\<close>.
\<close>

definition uniform :: "real \<Rightarrow> real \<Rightarrow> real \<Rightarrow> real" where
  "uniform r a b = a + (b - a) * r"

definition generate_jitter_offsets :: "(nat \<Rightarrow> real) \<Rightarrow> int \<Rightarrow> real \<Rightarrow> real \<Rightarrow> (real \<times> real) list" where
  "generate_jitter_offsets rnd m r_az r_el =
     map (\<lambda>i. (uniform (rnd (2 * i)) (- r_az) r_az, uniform (rnd (2 * i + 1)) (- r_el) r_el))
       [0 ..< nat m]"

section \<open>\<^verbatim>\<open>agent_main.py\<close>\<close>

record HistoryEntry =
  h_step :: int
  h_view_az :: json
  h_view_el :: json
  h_answer :: "axis \<rightharpoonup> sign"
  h_confidence :: "axis \<Rightarrow> real"

record Agent =
  belief :: BeliefState
  history :: "HistoryEntry list"
  model_name :: string
  tau :: real
  kappa_min :: real
  steps :: int

text \<open>
  The collaborators of the control loop, outside the repository's core: the planner
  model behind \<^verbatim>\<open>call_llm\<close> (its prompt is built from the agent's state), Python's
  \<^verbatim>\<open>json.loads\<close>, the random source, and the rendering environment together with the
  vision model behind \<^verbatim>\<open>env.capture\<close> and \<^verbatim>\<open>call_vlm\<close> (asked with the step, the
  index of the view within the step, the two angles and the focus axes). A collaborator
  that fails raises, and the loop does not catch it.
\<close>

record World =
  call_llm :: "Agent \<Rightarrow> error + string"
  json_loads :: "string \<Rightarrow> json option"
  random :: "int \<Rightarrow> nat \<Rightarrow> real"
  call_vlm :: "int \<Rightarrow> nat \<Rightarrow> real \<Rightarrow> real \<Rightarrow> json \<Rightarrow> error + string"

text \<open>\<^verbatim>\<open>Agent.__init__(model_name, tau=0.9, kappa_min=10)\<close>\<close>

definition Agent_init :: "string \<Rightarrow> real \<Rightarrow> real \<Rightarrow> Agent" where
  "Agent_init name t k =
     \<lparr>belief = BeliefState_init 1 1 ''wilson'', history = [], model_name = name,
      tau = t, kappa_min = k, steps = 1\<rparr>"

text \<open>
  \<^verbatim>\<open>propose_view\<close>: on a later turn the prompt holds the posterior, so
  \<^verbatim>\<open>get_posterior\<close> runs (and may raise) before the planner is called.
\<close>

definition propose_view :: "World \<Rightarrow> Agent \<Rightarrow> error + string" where
  "propose_view w a =
     (if history a = [] then call_llm w a
      else (case get_posterior (belief a) of
              Inl e \<Rightarrow> Inl e
            | Inr belief_state \<Rightarrow> call_llm w a))"

text \<open>Subscripting a decoded value with a string key: only a dictionary allows it.\<close>

definition py_getitem :: "json \<Rightarrow> string \<Rightarrow> error + json" where
  "py_getitem v k =
     (case v of
        JObj kvs \<Rightarrow> (case map_of kvs k of None \<Rightarrow> Inl KeyError | Some x \<Rightarrow> Inr x)
      | _ \<Rightarrow> Inl TypeError)"

text \<open>The left operand of \<^verbatim>\<open>az + daz\<close>: a number (a bool counts as one) or a TypeError.\<close>

definition py_number :: "json \<Rightarrow> error + real" where
  "py_number v =
     (case v of
        JNum r \<Rightarrow> Inr r
      | JBool c \<Rightarrow> Inr (if c then 1 else 0)
      | _ \<Rightarrow> Inl TypeError)"

text \<open>\<^verbatim>\<open>for axis, sign in labels.items(): axis_counts[axis][sign] += 1\<close>\<close>

definition add_votes :: "(axis \<rightharpoonup> sign) \<Rightarrow> (axis \<Rightarrow> tally) \<Rightarrow> (axis \<Rightarrow> tally)" where
  "add_votes labels axis_counts =
     foldl (\<lambda>ac A. case labels A of
                      None \<Rightarrow> ac
                    | Some s \<Rightarrow> ac(A := (ac A)(s := ac A s + 1)))
       axis_counts [X, Y, Z]"

text \<open>
  The loop \<^verbatim>\<open>for daz, del_ in offsets + [(0, 0)]\<close>, with the index \<open>k\<close> of the view.
  \<open>view_ans\<close> is unbound until a view with both offsets zero has been seen.
\<close>

fun collect_votes ::
  "World \<Rightarrow> Agent \<Rightarrow> json \<Rightarrow> json \<Rightarrow> json \<Rightarrow> nat \<Rightarrow> (real \<times> real) list
     \<Rightarrow> (axis \<Rightarrow> tally) \<Rightarrow> (axis \<rightharpoonup> sign) option
     \<Rightarrow> error + ((axis \<Rightarrow> tally) \<times> (axis \<rightharpoonup> sign) option)" where
  "collect_votes w a az el focus_axis k [] axis_counts view_ans = Inr (axis_counts, view_ans)"
| "collect_votes w a az el focus_axis k ((daz, del) # rest) axis_counts view_ans =
     (case py_number az of Inl e \<Rightarrow> Inl e | Inr azn \<Rightarrow>
     (case py_number el of Inl e \<Rightarrow> Inl e | Inr eln \<Rightarrow>
     (case call_vlm w (steps a) k (azn + daz) (eln + del) focus_axis of
        Inl e \<Rightarrow> Inl e
      | Inr ans \<Rightarrow>
          let labels = parse_answer ans;
              axis_counts' = add_votes labels axis_counts;
              view_ans' = (if daz = 0 \<and> del = 0 then Some labels else view_ans)
          in collect_votes w a az el focus_axis (Suc k) rest axis_counts' view_ans')))"

definition zero_counts :: "axis \<Rightarrow> tally" where
  "zero_counts = (\<lambda>A s. 0)"

text \<open>
  One pass through the body of the \<^verbatim>\<open>while\<close> loop of \<^verbatim>\<open>run\<close>. The result is the agent
  as the pass leaves it, with the exception raised, or else whether the pass ended in
  \<^verbatim>\<open>break\<close>.
\<close>

definition loop_body :: "World \<Rightarrow> int \<Rightarrow> Agent \<Rightarrow> Agent \<times> (error + bool)" where
  "loop_body w jitter_size a =
     (case propose_view w a of Inl e \<Rightarrow> (a, Inl e) | Inr llm_response \<Rightarrow>
     (case parse_answer_json (json_loads w) llm_response of Inl e \<Rightarrow> (a, Inl e) | Inr action \<Rightarrow>
     (case py_getitem action ''action'' of Inl e \<Rightarrow> (a, Inl e) | Inr act \<Rightarrow>
      if act = JStr ''STOP'' then (a, Inr True)
      else
     (case py_getitem action ''view'' of Inl e \<Rightarrow> (a, Inl e) | Inr view \<Rightarrow>
     (case py_getitem view ''az'' of Inl e \<Rightarrow> (a, Inl e) | Inr az \<Rightarrow>
     (case py_getitem view ''el'' of Inl e \<Rightarrow> (a, Inl e) | Inr el \<Rightarrow>
     (case py_getitem action ''axis'' of Inl e \<Rightarrow> (a, Inl e) | Inr focus_axis \<Rightarrow>
      let offsets = generate_jitter_offsets (random w (steps a)) jitter_size 3 3
      in
     (case collect_votes w a az el focus_axis 0 (offsets @ [(0, 0)]) zero_counts None of
        Inl e \<Rightarrow> (a, Inl e)
      | Inr (axis_counts, view_ans) \<Rightarrow>
     (case update (belief a) axis_counts of
        (b', Inl e) \<Rightarrow> (a\<lparr>belief := b'\<rparr>, Inl e)
      | (b', Inr confidence_scores) \<Rightarrow>
     (case view_ans of
        None \<Rightarrow> (a\<lparr>belief := b'\<rparr>, Inl UnboundLocalError)
      | Some labels \<Rightarrow>
          let a1 = a\<lparr>belief := b',
                     history := history a @
                       [\<lparr>h_step = steps a, h_view_az = az, h_view_el = el,
                         h_answer = labels, h_confidence = confidence_scores\<rparr>]\<rparr>;
              a2 = a1\<lparr>steps := steps a1 + 1\<rparr>
          in (case should_stop (belief a2) (tau a2) (kappa_min a2) of
                Inl e \<Rightarrow> (a2, Inl e)
              | Inr (stop, decision) \<Rightarrow> (a2, Inr stop))))))))))))"

text \<open>\<^verbatim>\<open>while self.steps < max_steps\<close>\<close>

function run_loop :: "World \<Rightarrow> int \<Rightarrow> int \<Rightarrow> Agent \<Rightarrow> Agent \<times> (error + unit)" where
  "run_loop w jitter_size max_steps a =
     (if steps a < max_steps
      then (case loop_body w jitter_size a of
              (a', Inl e) \<Rightarrow> (a', Inl e)
            | (a', Inr stop) \<Rightarrow>
                if stop then (a', Inr ()) else run_loop w jitter_size max_steps a')
      else (a, Inr ()))"
  by pat_completeness auto
termination
proof (relation "measure (\<lambda>(w, m, max_steps, a). nat (max_steps - steps a))")
  show "wf (measure (\<lambda>(w, m, max_steps, a). nat (max_steps - steps a)))"
    by simp
next
  fix w :: World and jitter_size max_steps :: int and a a' :: Agent
    and r :: "error + bool" and stop :: bool
  assume lt: "steps a < max_steps"
    and body: "(a', r) = loop_body w jitter_size a"
    and r: "r = Inr stop" and ns: "\<not> stop"
  from body r ns have "steps a' = steps a + 1"
    by (auto simp: loop_body_def Let_def split: sum.splits prod.splits option.splits if_splits)
  with lt show "((w, jitter_size, max_steps, a'), (w, jitter_size, max_steps, a))
      \<in> measure (\<lambda>(w, m, max_steps, a). nat (max_steps - steps a))"
    by simp
qed

declare run_loop.simps [simp del]

definition sign_char :: "sign \<Rightarrow> char" where
  "sign_char s = (case s of Positive \<Rightarrow> CHR ''+'' | Zero \<Rightarrow> CHR ''0'' | Negative \<Rightarrow> CHR ''-'')"

text \<open>
  \<^verbatim>\<open>f"<answer>({decision['X']+'X'}, {decision['Y']+'Y'}, {decision['Z']+'Z'})</answer>"\<close>
\<close>

definition format_answer :: "(axis \<Rightarrow> sign) \<Rightarrow> string" where
  "format_answer decision =
     ''<answer>('' @ [sign_char (decision X), CHR ''X''] @ '', ''
       @ [sign_char (decision Y), CHR ''Y''] @ '', ''
       @ [sign_char (decision Z), CHR ''Z''] @ '')</answer>''"

text \<open>
  \<^verbatim>\<open>Agent.run\<close>: the loop, then the decision of the belief as the loop left it. The
  agent is returned too, since the object is mutated in place and outlives an exception.
\<close>

definition run :: "World \<Rightarrow> int \<Rightarrow> int \<Rightarrow> Agent \<Rightarrow> Agent \<times> (error + (string \<times> (axis \<Rightarrow> real)))" where
  "run w jitter_size max_steps a =
     (case run_loop w jitter_size max_steps a of
        (a', Inl e) \<Rightarrow> (a', Inl e)
      | (a', Inr u) \<Rightarrow>
          (case get_decision (belief a') of
             Inl e \<Rightarrow> (a', Inl e)
           | Inr (decision, top_ps) \<Rightarrow> (a', Inr (format_answer decision, top_ps))))"

section \<open>Encodings and test inputs\<close>

text \<open>
  The text a perception answer carries, as \<^verbatim>\<open>prompts.py\<close> asks for it and as
  \<^verbatim>\<open>Agent.run\<close> writes its own answer: the tokens of the axes present, in the order
  X, Y, Z, separated by a comma and a blank, in parentheses.
\<close>

definition axis_char :: "axis \<Rightarrow> char" where
  "axis_char A = (case A of X \<Rightarrow> CHR ''X'' | Y \<Rightarrow> CHR ''Y'' | Z \<Rightarrow> CHR ''Z'')"

fun join_comma :: "string list \<Rightarrow> string" where
  "join_comma [] = []"
| "join_comma [t] = t"
| "join_comma (t # u # ts) = t @ '', '' @ join_comma (u # ts)"

definition tuple_text :: "(axis \<rightharpoonup> sign) \<Rightarrow> string" where
  "tuple_text labels =
     ''('' @ join_comma (concat (map (\<lambda>A. case labels A of
                                          None \<Rightarrow> []
                                        | Some s \<Rightarrow> [[sign_char s, axis_char A]]) [X, Y, Z]))
       @ '')''"

text \<open>Replies of the planner model: one without the tags, one that asks to stop.\<close>

definition untagged_reply :: string where
  "untagged_reply = ''I think we should stop here.''"

definition stop_object :: string where
  "stop_object = ''{'' @ [CHR 0x22] @ ''action'' @ [CHR 0x22] @ '': '' @ [CHR 0x22] @ ''STOP''
                   @ [CHR 0x22] @ ''}''"

definition stop_reply :: string where
  "stop_reply = ''<answer>'' @ stop_object @ ''</answer>''"

text \<open>
  Two worlds for the examples: a decoder that knows the stop object only, no jitter, a
  vision model that sees the target ahead on every axis, and the planner giving one of
  the two replies.
\<close>

definition example_loads :: "string \<Rightarrow> json option" where
  "example_loads s = (if s = stop_object then Some (JObj [(''action'', JStr ''STOP'')]) else None)"

definition example_world :: "string \<Rightarrow> World" where
  "example_world reply =
     \<lparr>call_llm = (\<lambda>a. Inr reply), json_loads = example_loads, random = (\<lambda>i k. 0),
      call_vlm = (\<lambda>i k az el focus. Inr ''<answer>(+X, +Y, +Z)</answer>'')\<rparr>"

section \<open>Sequences of calls\<close>

text \<open>
  The belief after a sequence of \<^verbatim>\<open>update\<close> calls on the same object, one tally per
  call. The object is mutated in place, so a call that raises still leaves its belief
  to the next one.
\<close>

definition updates :: "BeliefState \<Rightarrow> (axis \<Rightarrow> tally) list \<Rightarrow> BeliefState" where
  "updates b acs = foldl (\<lambda>b ac. fst (update b ac)) b acs"


text \<open>A step's tallies in which axis X received no vote and Y and Z three votes for the positive sign.\<close>

definition example_counts :: "axis \<Rightarrow> tally" where
  "example_counts = (\<lambda>A s. if A = X then 0 else if s = Positive then 3 else 0)"

section \<open>Properties of the belief state\<close>

lemma neff_zero_tally:
  "total c = 0 \<Longrightarrow> (if conf_method b = ''wilson'' then wilson_neff b c else entropy_neff b c) = Inr (0, 0)"
  by (simp add: wilson_neff_def entropy_neff_def total_def)

lemma update_axis_zero: "total c = 0 \<Longrightarrow> update_axis b A c = Inr (b, 0)"
  by (simp add: update_axis_def neff_zero_tally)

lemma update_axis_other:
  assumes "update_axis b A c = Inr (b', conf)"
  shows "lam b' = lam b" "gamma b' = gamma b" "conf_method b' = conf_method b"
    "A' \<noteq> A \<Longrightarrow> alpha b' A' = alpha b A'"
  using assms
  by (auto simp: update_axis_def Let_def split: sum.splits prod.splits if_splits)

lemma p_hat_nonneg:
  "0 \<le> lam b \<Longrightarrow> (\<And>s. 0 \<le> c s) \<Longrightarrow> 0 \<le> p_hat b c s"
  by (simp add: p_hat_def total_def)

lemma update_axis_mono:
  assumes "0 \<le> lam b" "\<And>s. 0 \<le> c s" "update_axis b A c = Inr (b', conf)"
  shows "alpha b A' s \<le> alpha b' A' s"
proof -
  have ph: "0 \<le> p_hat b c s" using assms(1,2) by (rule p_hat_nonneg)
  show ?thesis using assms(3) ph
    by (auto simp: update_axis_def Let_def split: sum.splits prod.splits if_splits)
qed

lemma update_cases:
  obtains (E1) e where "update_axis b X (ac X) = Inl e" "update b ac = (b, Inl e)"
  | (E2) b1 cx e where "update_axis b X (ac X) = Inr (b1, cx)" "update_axis b1 Y (ac Y) = Inl e"
      "update b ac = (b1, Inl e)"
  | (E3) b1 cx b2 cy e where "update_axis b X (ac X) = Inr (b1, cx)"
      "update_axis b1 Y (ac Y) = Inr (b2, cy)" "update_axis b2 Z (ac Z) = Inl e"
      "update b ac = (b2, Inl e)"
  | (OK) b1 cx b2 cy b3 cz where "update_axis b X (ac X) = Inr (b1, cx)"
      "update_axis b1 Y (ac Y) = Inr (b2, cy)" "update_axis b2 Z (ac Z) = Inr (b3, cz)"
      "update b ac = (b3, Inr (\<lambda>A. case A of X \<Rightarrow> cx | Y \<Rightarrow> cy | Z \<Rightarrow> cz))"
proof (cases "update_axis b X (ac X)")
  case (Inl e)
  then show ?thesis using E1 by (simp add: update_def)
next
  case x: (Inr r1)
  obtain b1 cx where r1: "r1 = (b1, cx)" by (cases r1)
  show ?thesis
  proof (cases "update_axis b1 Y (ac Y)")
    case (Inl e)
    then show ?thesis using E2 x r1 by (simp add: update_def)
  next
    case y: (Inr r2)
    obtain b2 cy where r2: "r2 = (b2, cy)" by (cases r2)
    show ?thesis
    proof (cases "update_axis b2 Z (ac Z)")
      case (Inl e)
      then show ?thesis using E3 x r1 y r2 by (simp add: update_def)
    next
      case z: (Inr r3)
      obtain b3 cz where r3: "r3 = (b3, cz)" by (cases r3)
      show ?thesis using OK x r1 y r2 z r3 by (simp add: update_def)
    qed
  qed
qed

lemma update_lam: "lam (fst (update b ac)) = lam b"
  by (rule update_cases[of b ac]) (simp_all add: update_axis_other)

lemma update_mono:
  assumes "0 \<le> lam b" "\<And>A s. 0 \<le> ac A s"
  shows "alpha b A s \<le> alpha (fst (update b ac)) A s"
proof (rule update_cases[of b ac])
  fix e assume "update b ac = (b, Inl e)" then show ?thesis by simp
next
  fix b1 cx e assume a: "update_axis b X (ac X) = Inr (b1, cx)" "update b ac = (b1, Inl e)"
  show ?thesis using update_axis_mono[OF assms(1) assms(2) a(1)] a(2) by simp
next
  fix b1 cx b2 cy e assume a: "update_axis b X (ac X) = Inr (b1, cx)"
      "update_axis b1 Y (ac Y) = Inr (b2, cy)" "update b ac = (b2, Inl e)"
  have l1: "0 \<le> lam b1" using update_axis_other(1)[OF a(1)] assms(1) by simp
  have "alpha b A s \<le> alpha b1 A s" by (rule update_axis_mono[OF assms(1) assms(2) a(1)])
  also have "\<dots> \<le> alpha b2 A s" by (rule update_axis_mono[OF l1 assms(2) a(2)])
  finally show ?thesis using a(3) by simp
next
  fix b1 cx b2 cy b3 cz assume a: "update_axis b X (ac X) = Inr (b1, cx)"
      "update_axis b1 Y (ac Y) = Inr (b2, cy)" "update_axis b2 Z (ac Z) = Inr (b3, cz)"
      "update b ac = (b3, Inr (\<lambda>A. case A of X \<Rightarrow> cx | Y \<Rightarrow> cy | Z \<Rightarrow> cz))"
  have l1: "0 \<le> lam b1" using update_axis_other(1)[OF a(1)] assms(1) by simp
  have l2: "0 \<le> lam b2" using update_axis_other(1)[OF a(2)] l1 by simp
  have "alpha b A s \<le> alpha b1 A s" by (rule update_axis_mono[OF assms(1) assms(2) a(1)])
  also have "\<dots> \<le> alpha b2 A s" by (rule update_axis_mono[OF l1 assms(2) a(2)])
  also have "\<dots> \<le> alpha b3 A s" by (rule update_axis_mono[OF l2 assms(2) a(3)])
  finally show ?thesis using a(4) by simp
qed

lemma updates_lam: "lam (updates b acs) = lam b"
  unfolding updates_def by (induction acs arbitrary: b) (simp_all add: update_lam)

lemma updates_mono:
  "0 \<le> lam b \<Longrightarrow> (\<forall>ac \<in> set acs. \<forall>A s. 0 \<le> ac A s) \<Longrightarrow> alpha b A s \<le> alpha (updates b acs) A s"
  unfolding updates_def
proof (induction acs arbitrary: b)
  case Nil then show ?case by simp
next
  case (Cons ac acs)
  have "alpha b A s \<le> alpha (fst (update b ac)) A s"
    using Cons.prems by (intro update_mono) auto
  also have "\<dots> \<le> alpha (foldl (\<lambda>b ac. fst (update b ac)) (fst (update b ac)) acs) A s"
    using Cons.prems by (intro Cons.IH) (auto simp: update_lam)
  finally show ?case by simp
qed


lemma update_axis_same:
  assumes "update_axis b A' c = Inr (b', conf)" "A' \<noteq> A \<or> total c = 0"
  shows "alpha b' A = alpha b A"
  using assms update_axis_other(4)[OF assms(1), of A] update_axis_zero[of c b A']
  by auto

lemma zero_tally_total: "c = (\<lambda>s. 0) \<Longrightarrow> total c = 0"
  by (simp add: total_def)

lemma update_zero_axis_alpha:
  assumes "ac A = (\<lambda>s. 0)"
  shows "alpha (fst (update b ac)) A = alpha b A"
proof -
  have t: "total (ac A) = 0" using assms by (rule zero_tally_total)
  have h: "\<And>A' b0. A' \<noteq> A \<or> total (ac A') = 0" using t by auto
  show ?thesis
  proof (rule update_cases[of b ac])
    fix e assume "update b ac = (b, Inl e)" then show ?thesis by simp
  next
    fix b1 cx e assume a: "update_axis b X (ac X) = Inr (b1, cx)" "update b ac = (b1, Inl e)"
    show ?thesis using update_axis_same[OF a(1) h] a(2) by simp
  next
    fix b1 cx b2 cy e assume a: "update_axis b X (ac X) = Inr (b1, cx)"
      "update_axis b1 Y (ac Y) = Inr (b2, cy)" "update b ac = (b2, Inl e)"
    show ?thesis using update_axis_same[OF a(1) h] update_axis_same[OF a(2) h] a(3) by simp
  next
    fix b1 cx b2 cy b3 cz assume a: "update_axis b X (ac X) = Inr (b1, cx)"
      "update_axis b1 Y (ac Y) = Inr (b2, cy)" "update_axis b2 Z (ac Z) = Inr (b3, cz)"
      "update b ac = (b3, Inr (\<lambda>A. case A of X \<Rightarrow> cx | Y \<Rightarrow> cy | Z \<Rightarrow> cz))"
    show ?thesis
      using update_axis_same[OF a(1) h] update_axis_same[OF a(2) h] update_axis_same[OF a(3) h] a(4)
      by simp
  qed
qed

lemma update_zero_axis_conf:
  assumes "ac A = (\<lambda>s. 0)" "snd (update b ac) = Inr conf"
  shows "conf A = 0"
proof -
  have t: "total (ac A) = 0" using assms(1) by (rule zero_tally_total)
  show ?thesis
  proof (rule update_cases[of b ac])
    fix e assume "update b ac = (b, Inl e)" then show ?thesis using assms(2) by simp
  next
    fix b1 cx e assume "update b ac = (b1, Inl e)"
    then show ?thesis using assms(2) by simp
  next
    fix b1 cx b2 cy e assume "update b ac = (b2, Inl e)"
    then show ?thesis using assms(2) by simp
  next
    fix b1 cx b2 cy b3 cz assume a: "update_axis b X (ac X) = Inr (b1, cx)"
      "update_axis b1 Y (ac Y) = Inr (b2, cy)" "update_axis b2 Z (ac Z) = Inr (b3, cz)"
      "update b ac = (b3, Inr (\<lambda>A. case A of X \<Rightarrow> cx | Y \<Rightarrow> cy | Z \<Rightarrow> cz))"
    have c: "conf = (\<lambda>A. case A of X \<Rightarrow> cx | Y \<Rightarrow> cy | Z \<Rightarrow> cz)" using a(4) assms(2) by simp
    show ?thesis
      using a(1,2,3) t update_axis_zero[of "ac A" b X] update_axis_zero[of "ac A" b1 Y]
        update_axis_zero[of "ac A" b2 Z]
      by (cases A) (simp_all add: c)
  qed
qed

lemma update_zero_counts: "update b zero_counts = (b, Inr (\<lambda>A. 0))"
proof -
  have "\<And>b A. update_axis b A (zero_counts A) = Inr (b, 0)"
    by (rule update_axis_zero) (simp add: zero_counts_def total_def)
  then have "update b zero_counts = (b, Inr (\<lambda>A. case A of X \<Rightarrow> 0 | Y \<Rightarrow> 0 | Z \<Rightarrow> 0))"
    by (simp add: update_def)
  moreover have "(\<lambda>A. case A of X \<Rightarrow> 0 | Y \<Rightarrow> 0 | Z \<Rightarrow> 0) = (\<lambda>A::axis. 0::real)"
    by (rule ext) (simp split: axis.split)
  ultimately show ?thesis by simp
qed

lemma updates_zero_axis:
  "(\<forall>ac \<in> set acs. ac A = (\<lambda>s. 0)) \<Longrightarrow> alpha (updates b acs) A = alpha b A"
  unfolding updates_def
  by (induction acs arbitrary: b) (simp_all add: update_zero_axis_alpha)

text \<open>
  Claim C8. An \<^verbatim>\<open>update\<close> whose tally for an axis is all zero leaves the three
  pseudo-counts of that axis exactly as they were and, when it returns, reports
  confidence 0 for that axis; this holds whatever the other axes receive, and after any
  number of such calls. With all three tallies zero the call returns the belief unchanged
  with confidence 0 everywhere, however often it is repeated.
\<close>

theorem update_zero_evidence:
  "(ac A = (\<lambda>s. 0) \<longrightarrow>
      alpha (fst (update b ac)) A = alpha b A
      \<and> (\<forall>conf. snd (update b ac) = Inr conf \<longrightarrow> conf A = 0))
   \<and> ((\<forall>ac \<in> set acs. ac A = (\<lambda>s. 0)) \<longrightarrow> alpha (updates b acs) A = alpha b A)
   \<and> update b zero_counts = (b, Inr (\<lambda>A. 0))
   \<and> updates b (replicate k zero_counts) = b"
proof -
  have "updates b (replicate k zero_counts) = b"
    unfolding updates_def by (induction k) (simp_all add: update_zero_counts)
  then show ?thesis
    using update_zero_axis_alpha[of ac A b] update_zero_axis_conf[of ac A b]
      updates_zero_axis[of acs A b] update_zero_counts[of b]
    by blast
qed

theorem update_zero_evidence_witness:
  "example_counts X = (\<lambda>s. 0)
   \<and> alpha (fst (update (BeliefState_init 1 1 ''wilson'') example_counts)) X
       = alpha (BeliefState_init 1 1 ''wilson'') X
   \<and> alpha (updates (BeliefState_init 1 1 ''wilson'') [example_counts, example_counts]) X
       = alpha (BeliefState_init 1 1 ''wilson'') X
   \<and> updates (BeliefState_init 1 1 ''wilson'') (replicate 2 zero_counts)
       = BeliefState_init 1 1 ''wilson''"
  using update_zero_evidence [of example_counts X "BeliefState_init 1 1 ''wilson''"
      "[example_counts, example_counts]" 2]
  by (simp add: example_counts_def)

lemma get_posterior_eq:
  "get_posterior b =
     (if \<exists>A. alpha_sum b A = 0 then Inl ZeroDivisionError
      else Inr (\<lambda>A s. alpha b A s / alpha_sum b A))"
proof -
  have ex: "(\<exists>A. alpha_sum b A = 0) \<longleftrightarrow> alpha_sum b X = 0 \<or> alpha_sum b Y = 0 \<or> alpha_sum b Z = 0"
    by (metis axis.exhaust)
  have f: "(\<lambda>A. case A of X \<Rightarrow> (\<lambda>s. alpha b X s / alpha_sum b X)
                | Y \<Rightarrow> (\<lambda>s. alpha b Y s / alpha_sum b Y)
                | Z \<Rightarrow> (\<lambda>s. alpha b Z s / alpha_sum b Z)) = (\<lambda>A s. alpha b A s / alpha_sum b A)"
    by (rule ext) (simp split: axis.split)
  show ?thesis
    unfolding ex by (simp add: get_posterior_def posterior_axis_def Let_def f)
qed

lemma posterior_ok:
  assumes "\<And>A s. 0 < alpha b A s"
  shows "\<exists>post. get_posterior b = Inr post
           \<and> (\<forall>A. (\<forall>s. 0 \<le> post A s) \<and> post A Positive + post A Zero + post A Negative = 1)"
proof -
  have pos: "\<And>A. 0 < alpha_sum b A"
    using assms by (simp add: alpha_sum_def add_pos_pos)
  then have ne: "\<not> (\<exists>A. alpha_sum b A = 0)" by (metis less_irrefl)
  have "\<And>A s. 0 \<le> alpha b A s / alpha_sum b A"
    using assms pos by (simp add: less_imp_le)
  moreover have "\<And>A. alpha b A Positive / alpha_sum b A + alpha b A Zero / alpha_sum b A
        + alpha b A Negative / alpha_sum b A = 1"
  proof -
    fix A
    have "alpha b A Positive / alpha_sum b A + alpha b A Zero / alpha_sum b A
        + alpha b A Negative / alpha_sum b A
        = (alpha b A Positive + alpha b A Zero + alpha b A Negative) / alpha_sum b A"
      by (simp only: add_divide_distrib)
    also have "\<dots> = 1" using pos[of A] by (simp add: alpha_sum_def)
    finally show "alpha b A Positive / alpha_sum b A + alpha b A Zero / alpha_sum b A
        + alpha b A Negative / alpha_sum b A = 1" .
  qed
  ultimately show ?thesis
    using ne by (simp add: get_posterior_eq)
qed

text \<open>
  Claim C5. From the prior of \<^verbatim>\<open>BeliefState(lam)\<close> with \<open>lam > 0\<close>, after any sequence
  of \<^verbatim>\<open>update\<close> calls with non-negative tallies, \<^verbatim>\<open>get_posterior\<close> returns (it does
  not raise), and for each axis its three values are non-negative and sum to exactly 1
  (over the reals).
\<close>

theorem get_posterior_distribution:
  assumes "0 < l" "\<forall>ac \<in> set acs. \<forall>A s. 0 \<le> ac A s"
  shows "\<exists>post. get_posterior (updates (BeliefState_init l g m) acs) = Inr post
           \<and> (\<forall>A. (\<forall>s. 0 \<le> post A s) \<and> post A Positive + post A Zero + post A Negative = 1)"
proof (rule posterior_ok)
  fix A s
  have "0 \<le> lam (BeliefState_init l g m)" using assms(1) by (simp add: BeliefState_init_def)
  then have "alpha (BeliefState_init l g m) A s \<le> alpha (updates (BeliefState_init l g m) acs) A s"
    using assms(2) by (rule updates_mono)
  moreover have "alpha (BeliefState_init l g m) A s = l" by (simp add: BeliefState_init_def)
  ultimately show "0 < alpha (updates (BeliefState_init l g m) acs) A s"
    using assms(1) by simp
qed

theorem get_posterior_distribution_witness:
  "(0::real) < 1
   \<and> (\<exists>post. get_posterior (updates (BeliefState_init 1 1 ''wilson'') [example_counts]) = Inr post
         \<and> (\<forall>A. (\<forall>s. 0 \<le> post A s) \<and> post A Positive + post A Zero + post A Negative = 1))"
  using get_posterior_distribution [of 1 "[example_counts]" 1 "''wilson''"]
  by (simp add: example_counts_def)

section \<open>Properties of the decision and the stop rule\<close>

lemma top_item_snd: "snd (top_item p) = max (p Positive) (max (p Zero) (p Negative))"
  by (simp add: top_item_def Let_def max_def)

lemma top_item_fst:
  "fst (top_item p) =
     (if p Positive = max (p Positive) (max (p Zero) (p Negative)) then Positive
      else if p Zero = max (p Positive) (max (p Zero) (p Negative)) then Zero
      else Negative)"
  by (simp add: top_item_def Let_def max_def)

lemma get_decision_eq:
  "get_decision b =
     (if \<exists>A. alpha_sum b A = 0 then Inl ZeroDivisionError
      else Inr (\<lambda>A. fst (top_item (\<lambda>s. alpha b A s / alpha_sum b A)),
                \<lambda>A. snd (top_item (\<lambda>s. alpha b A s / alpha_sum b A))))"
  by (simp add: get_decision_def get_posterior_eq)

lemma all_axis: "(\<forall>A. P A) \<longleftrightarrow> P X \<and> P Y \<and> P Z"
  by (metis axis.exhaust)

text \<open>
  Claim C2. \<^verbatim>\<open>should_stop(tau, kappa_min)\<close> returns whenever no axis has a zero sum of
  pseudo-counts (it raises ZeroDivisionError otherwise), and its flag is true exactly
  when every axis has its largest posterior probability at least \<open>tau\<close> and the sum of its
  three pseudo-counts at least \<open>kappa_min\<close>; one failing axis makes the flag false.
\<close>

theorem should_stop_iff:
  "should_stop b t k =
     (if \<exists>A. alpha_sum b A = 0 then Inl ZeroDivisionError
      else Inr ((\<forall>A. t \<le> max (alpha b A Positive / alpha_sum b A)
                          (max (alpha b A Zero / alpha_sum b A)
                               (alpha b A Negative / alpha_sum b A))
                     \<and> k \<le> alpha_sum b A),
                \<lambda>A. fst (top_item (\<lambda>s. alpha b A s / alpha_sum b A))))"
proof (cases "\<exists>A. alpha_sum b A = 0")
  case True
  then show ?thesis by (simp add: should_stop_def get_decision_eq)
next
  case False
  have "foldl (\<lambda>ok A. if \<not> (t \<le> f A \<and> k \<le> alpha_sum b A) then False else ok) True [X, Y, Z]
        = (\<forall>A. t \<le> f A \<and> k \<le> alpha_sum b A)" for f :: "axis \<Rightarrow> real"
    unfolding all_axis[of "\<lambda>A. t \<le> f A \<and> k \<le> alpha_sum b A"] by simp
  then show ?thesis using False
    by (simp add: should_stop_def get_decision_eq top_item_snd)
qed

lemma prior_decision:
  "l \<noteq> 0 \<Longrightarrow> get_decision (BeliefState_init l g m) = Inr (\<lambda>A. Positive, \<lambda>A. 1 / 3)"
  by (simp add: get_decision_eq alpha_sum_def BeliefState_init_def top_item_def)

section \<open>Properties of the control loop\<close>

lemma add_votes_nonneg:
  "(\<And>A s. 0 \<le> ac A s) \<Longrightarrow> 0 \<le> add_votes labels ac A s"
  by (auto simp: add_votes_def split: option.splits)

lemma collect_votes_nonneg:
  "collect_votes w a az el fa k offs ac va = Inr (ac', va') \<Longrightarrow> (\<And>A s. 0 \<le> ac A s)
     \<Longrightarrow> 0 \<le> ac' A s"
proof (induction offs arbitrary: k ac va)
  case Nil
  then show ?case by simp
next
  case (Cons off offs)
  obtain daz del where o: "off = (daz, del)" by (cases off)
  from Cons.prems(1) obtain azn eln ans where
    rec: "collect_votes w a az el fa (Suc k) offs (add_votes (parse_answer ans) ac)
            (if daz = 0 \<and> del = 0 then Some (parse_answer ans) else va) = Inr (ac', va')"
    unfolding o by (auto simp: Let_def split: sum.splits)
  show ?case
    by (rule Cons.IH[OF rec]) (rule add_votes_nonneg, rule Cons.prems(2))
qed

lemma loop_body_belief:
  assumes "loop_body w m a = (a', r)"
  shows "lam (belief a') = lam (belief a)
     \<and> (0 \<le> lam (belief a) \<longrightarrow> (\<forall>A s. alpha (belief a) A s \<le> alpha (belief a') A s))"
proof -
  have key: "lam b' = lam (belief a)
       \<and> (0 \<le> lam (belief a) \<longrightarrow> (\<forall>A s. alpha (belief a) A s \<le> alpha b' A s))"
    if c: "collect_votes w a az el fa 0 offs zero_counts None = Inr (ac, va)"
      and u: "update (belief a) ac = (b', res)"
    for az el fa offs ac va b' res
  proof -
    have nn: "\<And>A s. 0 \<le> ac A s"
      by (rule collect_votes_nonneg[OF c]) (simp add: zero_counts_def)
    have b': "b' = fst (update (belief a) ac)" using u by simp
    show ?thesis unfolding b' using update_mono[OF _ nn] by (simp add: update_lam)
  qed
  show ?thesis
    using assms
    by (auto simp: loop_body_def Let_def split: sum.splits prod.splits option.splits if_splits
        dest: key)
qed

lemma run_loop_belief:
  "lam (belief (fst (run_loop w m ms a))) = lam (belief a)
     \<and> (0 \<le> lam (belief a) \<longrightarrow>
          (\<forall>A s. alpha (belief a) A s \<le> alpha (belief (fst (run_loop w m ms a))) A s))"
proof (induction w m ms a rule: run_loop.induct)
  case (1 w m ms a)
  show ?case
  proof (cases "steps a < ms")
    case False
    then show ?thesis by (simp add: run_loop.simps[of w m ms a])
  next
    case True
    obtain a' r where body: "loop_body w m a = (a', r)" by (cases "loop_body w m a")
    note lb = loop_body_belief[OF body]
    show ?thesis
    proof (cases r)
      case (Inl e)
      then show ?thesis using True body lb by (simp add: run_loop.simps[of w m ms a])
    next
      case (Inr stop)
      show ?thesis
      proof (cases stop)
        case True
        then show ?thesis using \<open>steps a < ms\<close> body lb Inr
          by (simp add: run_loop.simps[of w m ms a])
      next
        case False
        have eq: "run_loop w m ms a = run_loop w m ms a'"
          using \<open>steps a < ms\<close> body Inr False by (simp add: run_loop.simps[of w m ms a])
        have ih: "lam (belief (fst (run_loop w m ms a'))) = lam (belief a')
          \<and> (0 \<le> lam (belief a') \<longrightarrow>
          (\<forall>A s. alpha (belief a') A s \<le> alpha (belief (fst (run_loop w m ms a'))) A s))"
          using "1.IH"[OF \<open>steps a < ms\<close> body[symmetric] Inr False] .
        show ?thesis unfolding eq
        proof (intro conjI impI allI)
          show "lam (belief (fst (run_loop w m ms a'))) = lam (belief a)"
            using ih lb by simp
        next
          fix A s
          assume "0 \<le> lam (belief a)"
          then have "alpha (belief a) A s \<le> alpha (belief a') A s"
            and "alpha (belief a') A s \<le> alpha (belief (fst (run_loop w m ms a'))) A s"
            using ih lb by simp_all
          then show "alpha (belief a) A s \<le> alpha (belief (fst (run_loop w m ms a'))) A s"
            by (rule order_trans)
        qed
      qed
    qed
  qed
qed

lemma fst_run: "fst (run w m ms a) = fst (run_loop w m ms a)"
  by (simp add: run_def split: prod.splits sum.splits)

text \<open>
  Claim C4. No pseudo-count ever decreases: an \<^verbatim>\<open>update\<close> with non-negative tallies
  on a belief with \<open>lam \<ge> 0\<close> leaves every \<open>alpha[A][s]\<close> at least as large as it was,
  also when the call raises part-way; and over a whole \<^verbatim>\<open>Agent.run\<close>, in which
  \<^verbatim>\<open>get_posterior\<close>, \<^verbatim>\<open>get_decision\<close> and \<^verbatim>\<open>should_stop\<close> are called besides
  \<^verbatim>\<open>update\<close>, every pseudo-count of the agent's belief ends at least as large as it
  started, so never below the prior 1 of a fresh agent.
\<close>

theorem pseudo_counts_never_decrease:
  "(0 \<le> lam b \<and> (\<forall>A s. 0 \<le> ac A s) \<longrightarrow> alpha b A s \<le> alpha (fst (update b ac)) A s)
   \<and> (0 \<le> lam (belief a) \<longrightarrow> alpha (belief a) A s \<le> alpha (belief (fst (run w m ms a))) A s)
   \<and> 1 \<le> alpha (belief (fst (run w m ms (Agent_init name t k)))) A s"
proof -
  have "alpha (belief (Agent_init name t k)) A s
      \<le> alpha (belief (fst (run w m ms (Agent_init name t k)))) A s"
    using run_loop_belief[of w m ms "Agent_init name t k"]
    by (simp add: fst_run Agent_init_def BeliefState_init_def)
  then have "1 \<le> alpha (belief (fst (run w m ms (Agent_init name t k)))) A s"
    by (simp add: Agent_init_def BeliefState_init_def)
  then show ?thesis
    using update_mono[of b ac A s] run_loop_belief[of w m ms a] by (simp add: fst_run)
qed

lemma run_loop_not_entered:
  "\<not> steps a < ms \<Longrightarrow> run_loop w m ms a = (a, Inr ())"
  by (simp add: run_loop.simps[of w m ms a])

lemma agent_prior_decision:
  "get_decision (belief (Agent_init name t k)) = Inr (\<lambda>A. Positive, \<lambda>A. 1 / 3)"
  by (simp add: Agent_init_def prior_decision)

lemma format_all_positive: "format_answer (\<lambda>A. Positive) = ''<answer>(+X, +Y, +Z)</answer>''"
  by (simp add: format_answer_def sign_char_def)

text \<open>
  Claim C1, as the code behaves. A fresh agent has \<open>steps = 1\<close>, so with
  \<open>max_steps = 1\<close> the guard \<^verbatim>\<open>self.steps < max_steps\<close> fails at once: whatever the
  planner would answer, \<^verbatim>\<open>run\<close> performs no cycle at all. The history stays empty,
  the belief is the untouched prior and the answer is the prior's decision.
\<close>

theorem run_max_steps_one:
  "run w m 1 (Agent_init name t k)
     = (Agent_init name t k, Inr (''<answer>(+X, +Y, +Z)</answer>'', \<lambda>A. 1 / 3))
   \<and> history (fst (run w m 1 (Agent_init name t k))) = []
   \<and> belief (fst (run w m 1 (Agent_init name t k))) = BeliefState_init 1 1 ''wilson''"
proof -
  have "\<not> steps (Agent_init name t k) < 1" by (simp add: Agent_init_def)
  then have "run_loop w m 1 (Agent_init name t k) = (Agent_init name t k, Inr ())"
    by (rule run_loop_not_entered)
  then have "run w m 1 (Agent_init name t k)
     = (Agent_init name t k, Inr (''<answer>(+X, +Y, +Z)</answer>'', \<lambda>A. 1 / 3))"
    by (simp add: run_def agent_prior_decision format_all_positive)
  then show ?thesis by (simp add: Agent_init_def)
qed

lemma run_loop_raise:
  "steps a < ms \<Longrightarrow> loop_body w m a = (a', Inl e) \<Longrightarrow> run_loop w m ms a = (a', Inl e)"
  by (simp add: run_loop.simps[of w m ms a])

lemma run_loop_break:
  "steps a < ms \<Longrightarrow> loop_body w m a = (a', Inr True) \<Longrightarrow> run_loop w m ms a = (a', Inr ())"
  by (simp add: run_loop.simps[of w m ms a])

lemma loop_body_decode_error:
  "propose_view w a = Inr r \<Longrightarrow> parse_answer_json (json_loads w) r = Inl e
     \<Longrightarrow> loop_body w m a = (a, Inl e)"
  by (simp add: loop_body_def)

lemma loop_body_stop:
  "propose_view w a = Inr r \<Longrightarrow> parse_answer_json (json_loads w) r = Inr action
     \<Longrightarrow> py_getitem action ''action'' = Inr (JStr ''STOP'')
     \<Longrightarrow> loop_body w m a = (a, Inr True)"
  by (simp add: loop_body_def)

lemma run_decode_error:
  "steps a < ms \<Longrightarrow> propose_view w a = Inr r \<Longrightarrow> parse_answer_json (json_loads w) r = Inl e
     \<Longrightarrow> run w m ms a = (a, Inl e)"
  by (simp add: run_def run_loop_raise[OF _ loop_body_decode_error])

lemma run_stop_first:
  assumes "call_llm w (Agent_init name t k) = Inr r"
    "parse_answer_json (json_loads w) r = Inr action"
    "py_getitem action ''action'' = Inr (JStr ''STOP'')"
  shows "run w m ms (Agent_init name t k)
     = (Agent_init name t k, Inr (''<answer>(+X, +Y, +Z)</answer>'', \<lambda>A. 1 / 3))"
proof -
  have pv: "propose_view w (Agent_init name t k) = Inr r"
    using assms(1) by (simp add: propose_view_def Agent_init_def)
  have "run_loop w m ms (Agent_init name t k) = (Agent_init name t k, Inr ())"
  proof (cases "steps (Agent_init name t k) < ms")
    case True
    then show ?thesis by (rule run_loop_break) (rule loop_body_stop[OF pv assms(2,3)])
  next
    case False
    then show ?thesis by (rule run_loop_not_entered)
  qed
  then show ?thesis
    by (simp add: run_def agent_prior_decision format_all_positive)
qed

section \<open>Properties of the parsers\<close>

lemma starts_with_iff: "starts_with p s \<longleftrightarrow> (\<exists>t. s = p @ t)"
  by (induction p s rule: starts_with.induct) auto

lemma lazy_until_Some: "lazy_until p s = Some g \<Longrightarrow> \<exists>t. s = g @ p @ t"
proof (induction s arbitrary: g)
  case Nil
  then show ?case by (simp split: if_splits)
next
  case (Cons c cs)
  show ?case
  proof (cases "starts_with p (c # cs)")
    case True
    then show ?thesis using Cons.prems by (simp add: starts_with_iff)
  next
    case False
    then obtain g' where g': "lazy_until p cs = Some g'" "g = c # g'"
      using Cons.prems by auto
    from Cons.IH[OF g'(1)] show ?thesis using g'(2) by auto
  qed
qed

lemma lazy_until_None:
  assumes "p \<noteq> []"
  shows "lazy_until p s = None \<longleftrightarrow> \<not> (\<exists>u t. s = u @ p @ t)"
proof (induction s)
  case Nil
  then show ?case using assms by simp
next
  case (Cons c cs)
  show ?case
  proof (cases "starts_with p (c # cs)")
    case True
    then obtain t where "c # cs = [] @ p @ t" by (auto simp: starts_with_iff)
    then have "\<exists>u t. c # cs = u @ p @ t" by blast
    then show ?thesis using True by simp
  next
    case False
    have "(\<exists>u t. c # cs = u @ p @ t) \<longleftrightarrow> (\<exists>u t. cs = u @ p @ t)"
    proof
      assume "\<exists>u t. c # cs = u @ p @ t"
      then obtain u t where ut: "c # cs = u @ p @ t" by blast
      show "\<exists>u t. cs = u @ p @ t"
      proof (cases u)
        case Nil
        then have "starts_with p (c # cs)" using ut by (auto simp: starts_with_iff)
        then show ?thesis using False by simp
      next
        case (Cons x u')
        then have "cs = u' @ p @ t" using ut by simp
        then show ?thesis by blast
      qed
    next
      assume "\<exists>u t. cs = u @ p @ t"
      then obtain u t where "cs = u @ p @ t" by blast
      then have "c # cs = (c # u) @ p @ t" by simp
      then show "\<exists>u t. c # cs = u @ p @ t" by blast
    qed
    then show ?thesis using False Cons.IH by simp
  qed
qed


lemma search_answer_dotall_Some:
  "search_answer_dotall s = Some g \<Longrightarrow> \<exists>pre post. s = pre @ ''<answer>'' @ g @ ''</answer>'' @ post"
proof (induction s)
  case Nil
  then show ?case by simp
next
  case (Cons c cs)
  show ?case
  proof (cases "starts_with ''<answer>'' (c # cs) \<and> lazy_until ''</answer>'' (drop 8 (c # cs)) \<noteq> None")
    case True
    then obtain t where t: "c # cs = ''<answer>'' @ t" by (auto simp: starts_with_iff)
    have d: "drop 8 (c # cs) = t" unfolding t by simp
    have "lazy_until ''</answer>'' t = Some g" using True Cons.prems d by auto
    then obtain post where "t = g @ ''</answer>'' @ post" using lazy_until_Some by blast
    then have "c # cs = [] @ ''<answer>'' @ g @ ''</answer>'' @ post" using t by simp
    then show ?thesis by blast
  next
    case False
    have "search_answer_dotall (c # cs) =
        (if starts_with ''<answer>'' (c # cs)
         then (case lazy_until ''</answer>'' (drop 8 (c # cs)) of
                 Some g \<Rightarrow> Some g | None \<Rightarrow> search_answer_dotall cs)
         else search_answer_dotall cs)"
      by (rule search_answer_dotall.simps(2))
    with False have "search_answer_dotall (c # cs) = search_answer_dotall cs"
      by (simp del: starts_with.simps search_answer_dotall.simps split: option.splits)
    then have "search_answer_dotall cs = Some g" using Cons.prems by simp
    then obtain pre post where "cs = pre @ ''<answer>'' @ g @ ''</answer>'' @ post"
      using Cons.IH by blast
    then have "c # cs = (c # pre) @ ''<answer>'' @ g @ ''</answer>'' @ post" by simp
    then show ?thesis by blast
  qed
qed

lemma search_answer_dotall_found:
  "search_answer_dotall (pre @ ''<answer>'' @ mid @ ''</answer>'' @ post) \<noteq> None"
proof (induction pre)
  case Nil
  have "lazy_until ''</answer>'' (mid @ ''</answer>'' @ post) \<noteq> None"
    using lazy_until_None[of "''</answer>''" "mid @ ''</answer>'' @ post"] by blast
  then show ?case by auto
next
  case (Cons c pre)
  then show ?case by (auto split: option.splits)
qed

lemma search_answer_dotall_None:
  "search_answer_dotall s = None \<longleftrightarrow>
     \<not> (\<exists>pre mid post. s = pre @ ''<answer>'' @ mid @ ''</answer>'' @ post)"
proof
  assume "search_answer_dotall s = None"
  then show "\<not> (\<exists>pre mid post. s = pre @ ''<answer>'' @ mid @ ''</answer>'' @ post)"
    using search_answer_dotall_found by metis
next
  assume n: "\<not> (\<exists>pre mid post. s = pre @ ''<answer>'' @ mid @ ''</answer>'' @ post)"
  show "search_answer_dotall s = None"
  proof (cases "search_answer_dotall s")
    case None then show ?thesis .
  next
    case (Some g)
    then show ?thesis using search_answer_dotall_Some n by blast
  qed
qed

lemma parse_answer_json_error:
  "parse_answer_json loads s = Inl e \<longleftrightarrow>
     e = ValueError
     \<and> (\<not> (\<exists>pre mid post. s = pre @ ''<answer>'' @ mid @ ''</answer>'' @ post)
        \<or> (\<exists>pre g post. s = pre @ ''<answer>'' @ g @ ''</answer>'' @ post
              \<and> search_answer_dotall s = Some g \<and> loads (strip g) = None))"
proof (cases "search_answer_dotall s")
  case None
  then show ?thesis using search_answer_dotall_None[of s]
    by (auto simp: parse_answer_json_def)
next
  case (Some g)
  then have ex: "\<exists>pre post. s = pre @ ''<answer>'' @ g @ ''</answer>'' @ post"
    by (rule search_answer_dotall_Some)
  then have "\<exists>pre mid post. s = pre @ ''<answer>'' @ mid @ ''</answer>'' @ post" by blast
  then show ?thesis using Some ex
    by (auto simp: parse_answer_json_def split: option.splits)
qed

lemma sign_char_facts:
  "\<not> is_space (sign_char s)" "sign_char s \<noteq> CHR ''<''" "CHR ''<'' \<noteq> sign_char s"
  "sign_char s \<noteq> CHR '',''" "sign_char s \<noteq> CHR 0x0A" "sign_char s \<noteq> CHR ''(''"
  "CHR ''('' \<noteq> sign_char s"
  "sign_of_char (sign_char s) = Some s"
  by (cases s; simp add: sign_char_def is_space_def sign_of_char_def)+

lemma is_space_facts:
  "is_space (CHR '' '')" "\<not> is_space (CHR ''('')" "\<not> is_space (CHR '')'')"
  "\<not> is_space (CHR '','')" "\<not> is_space (CHR ''X'')" "\<not> is_space (CHR ''Y'')"
  "\<not> is_space (CHR ''Z'')" "\<not> is_space (CHR ''<'')" "\<not> is_space (CHR ''>'')"
  by (simp_all add: is_space_def)

lemmas parse_eval = parse_answer_def strip_def ends_with_def match_token_def
  axis_of_char_def tuple_text_def axis_char_def sign_char_facts is_space_facts

lemma parse_tuple_text_at: "parse_answer (tuple_text m) A = m A"
proof -
  obtain mx my mz where m: "m X = mx" "m Y = my" "m Z = mz" by blast
  show ?thesis
    by (cases mx; cases my; cases mz; cases A) (use m in \<open>simp_all add: parse_eval\<close>)
qed

lemma parse_tagged_tuple_text_at:
  "parse_answer (''<answer>'' @ tuple_text m @ ''</answer>'') A = m A"
proof -
  obtain mx my mz where m: "m X = mx" "m Y = my" "m Z = mz" by blast
  show ?thesis
    by (cases mx; cases my; cases mz; cases A) (use m in \<open>simp_all add: parse_eval\<close>)
qed

lemma parse_format_answer_at: "parse_answer (format_answer d) A = Some (d A)"
  by (cases A) (simp_all add: parse_eval format_answer_def)

end
